theory Spec2Isabelle
  imports Main "HOL-Library.Sublist"
begin

section \<open>Python primitives used by resources/lib/webscraper.py\<close>

text \<open>
  Strings are byte lists. Only the library calls that the scraper makes are modelled,
  each one following the behaviour of the Python function of the same name.
\<close>

datatype error = IndexError | AttributeError | TypeError | ValueError | NetworkFailure

text \<open>\<^verbatim>\<open>s.split(c)\<close> for a one-character separator: never empty, keeps empty segments.\<close>

fun extend_first :: "char \<Rightarrow> string list \<Rightarrow> string list" where
  "extend_first x [] = [[x]]"
| "extend_first x (seg # segs) = (x # seg) # segs"

fun split :: "char \<Rightarrow> string \<Rightarrow> string list" where
  "split c [] = [[]]"
| "split c (x # xs) =
     (if x = c then [] # split c xs else extend_first x (split c xs))"

text \<open>\<^verbatim>\<open>xs[i]\<close> for a non-negative literal index: IndexError out of range.\<close>

definition item :: "'a list \<Rightarrow> nat \<Rightarrow> error + 'a" where
  "item xs i = (if i < length xs then Inr (xs ! i) else Inl IndexError)"

text \<open>\<^verbatim>\<open>xs[0:stop]\<close>: a negative stop counts from the end, and both ends are clamped.\<close>

definition slice_to :: "'a list \<Rightarrow> int \<Rightarrow> 'a list" where
  "slice_to xs stop =
     (let n = int (length xs);
          e = (if stop < 0 then max (stop + n) 0 else min stop n)
      in take (nat e) xs)"

text \<open>\<^verbatim>\<open>s.rfind(c)\<close>: the index of the last occurrence of \<open>c\<close>, or -1.\<close>

definition rfind :: "char \<Rightarrow> string \<Rightarrow> int" where
  "rfind c s = int (length s) - 1 - int (length (takeWhile (\<lambda>x. x \<noteq> c) (rev s)))"

text \<open>
  \<^verbatim>\<open>os.path.splitext(p)[0]\<close> (posixpath): cut at the last dot of the last path
  component, unless that component has only dots before it.
\<close>

definition splitext_root :: "string \<Rightarrow> string" where
  "splitext_root p =
     (let sepIndex = rfind CHR ''/'' p;
          dotIndex = rfind CHR ''.'' p
      in if dotIndex > sepIndex \<and>
            list_ex (\<lambda>c. c \<noteq> CHR ''.'')
              (drop (nat (sepIndex + 1)) (take (nat dotIndex) p))
         then take (nat dotIndex) p else p)"

text \<open>\<^verbatim>\<open>os.path.join(a, *p)\<close> (posixpath).\<close>

definition join_step :: "string \<Rightarrow> string \<Rightarrow> string" where
  "join_step path b =
     (if b \<noteq> [] \<and> hd b = CHR ''/'' then b
      else if path = [] \<or> last path = CHR ''/'' then path @ b
      else path @ ''/'' @ b)"

definition os_path_join :: "string \<Rightarrow> string list \<Rightarrow> string" where
  "os_path_join a p = foldl join_step a p"

section \<open>The thumbnail directory\<close>

text \<open>
  The directory \<^verbatim>\<open>resources/thumbnails\<close> holds plain files. \<open>files\<close> lists them in
  \<^verbatim>\<open>os.listdir\<close> order; \<open>clock\<close> is the modification time the next written file gets;
  \<open>fetched\<close> logs every \<^verbatim>\<open>requests.get\<close> of the thumbnail cache. The order of
  \<^verbatim>\<open>os.listdir\<close> is the file system's choice: \<open>place\<close> gives, from the present listing
  and a new name, the index at which the listing shows a file created under that name.
\<close>

record entry =
  fname :: string
  mtime :: nat
  data :: string

record world =
  files :: "entry list"
  clock :: nat
  fetched :: "string list"
  place :: "string list \<Rightarrow> string \<Rightarrow> nat"

record response =
  content_type :: "string option"
  body :: string

text \<open>
  \<open>cache_size\<close> is \<^verbatim>\<open>int(get_setting('cache_size'))\<close>: \<open>None\<close> when \<^verbatim>\<open>int\<close> rejects
  the setting's text. \<open>addon_dir\<close> is the translated add-on path.
\<close>

record config =
  addon_dir :: string
  cache_size :: "int option"

definition listdir :: "world \<Rightarrow> string list" where
  "listdir w = map fname (files w)"

text \<open>\<^verbatim>\<open>sorted(os.listdir(path), key=mtime)\<close>: a stable sort by modification time.\<close>

definition sorted_ls :: "world \<Rightarrow> string list" where
  "sorted_ls w = map fname (sort_key mtime (files w))"

definition os_remove :: "world \<Rightarrow> string \<Rightarrow> world" where
  "os_remove w name = w\<lparr>files := filter (\<lambda>f. fname f \<noteq> name) (files w)\<rparr>"

text \<open>
  \<^verbatim>\<open>open(filename, "wb")\<close>, write, close: replace the content of the file, or create
  it; a created file appears in the listing where the file system places it.
\<close>

definition write_file :: "string \<Rightarrow> string \<Rightarrow> world \<Rightarrow> world" where
  "write_file name bytes w =
     (let f = \<lparr>fname = name, mtime = clock w, data = bytes\<rparr>;
          k = place w (listdir w) name
      in w\<lparr>files := (if name \<in> set (listdir w)
                      then map (\<lambda>g. if fname g = name then f else g) (files w)
                      else take k (files w) @ [f] @ drop k (files w)),
            clock := Suc (clock w)\<rparr>)"

text \<open>Lines 176-179 of \<^verbatim>\<open>download_fanart\<close>: the files to delete, then the deletions.\<close>

definition del_list :: "int \<Rightarrow> world \<Rightarrow> string list" where
  "del_list max_Files w = slice_to (sorted_ls w) (int (length (sorted_ls w)) - max_Files)"

definition evict :: "int \<Rightarrow> world \<Rightarrow> world" where
  "evict max_Files w = foldl os_remove w (del_list max_Files w)"

definition enforce :: "config \<Rightarrow> string \<Rightarrow> world \<Rightarrow> (error + string) \<times> world" where
  "enforce cfg filename w =
     (case cache_size cfg of
        None \<Rightarrow> (Inl ValueError, w)
      | Some max_Files \<Rightarrow> (Inr filename, evict max_Files w))"

text \<open>Lines 164-167: the extension of the file to write.\<close>

definition extension_of :: "response \<Rightarrow> string" where
  "extension_of r =
     (case content_type r of
        Some h \<Rightarrow> last (split CHR ''/'' h)
      | None \<Rightarrow> ''apng'')"

definition thumbnail :: "config \<Rightarrow> string \<Rightarrow> string" where
  "thumbnail cfg s = os_path_join (addon_dir cfg) [''resources'', ''thumbnails'', s]"

definition cached :: "string \<Rightarrow> world \<Rightarrow> string option" where
  "cached key w = find (\<lambda>s. splitext_root s = ''gabtv_'' @ key) (listdir w)"

definition download_fanart ::
  "config \<Rightarrow> (string \<Rightarrow> response option) \<Rightarrow> string \<Rightarrow> world \<Rightarrow> (error + string) \<times> world" where
  "download_fanart cfg net url w =
     (let key = last (split CHR ''/'' url)
      in case cached key w of
           Some s \<Rightarrow> enforce cfg (thumbnail cfg s) w
         | None \<Rightarrow>
             (let w1 = w\<lparr>fetched := fetched w @ [url]\<rparr>
              in case net url of
                   None \<Rightarrow> (Inl NetworkFailure, w1)
                 | Some r \<Rightarrow>
                     (let name = ''gabtv_'' @ key @ ''.'' @ extension_of r
                      in enforce cfg (thumbnail cfg name) (write_file name (body r) w1))))"

section \<open>The catalog item mapper\<close>

text \<open>
  \<^verbatim>\<open>TitleItem\<close> (module helperobjects) by the keyword arguments the scraper passes;
  \<^verbatim>\<open>url_for('play_video', channel=..., view=...)\<close> is kept as the route it names.
\<close>

datatype route = Play_video string string

record title_item =
  label :: string
  path :: route
  art_dict :: "(string \<times> string) list"
  info_dict :: "(string \<times> string) list"
  is_playable :: bool

text \<open>Lines 124-125: \<^verbatim>\<open>video_url.split('/')[2]\<close> and \<^verbatim>\<open>video_url.split('/')[4]\<close>.\<close>

definition channel_view :: "string \<Rightarrow> error + string \<times> string" where
  "channel_view video_url =
     (case item (split CHR ''/'' video_url) 2 of
        Inl e \<Rightarrow> Inl e
      | Inr channel \<Rightarrow>
          (case item (split CHR ''/'' video_url) 4 of
             Inl e \<Rightarrow> Inl e
           | Inr view \<Rightarrow> Inr (channel, view)))"

text \<open>
  The loop of \<^verbatim>\<open>__map_videos\<close> over \<^verbatim>\<open>zip(titles, video_urls, art_urls)\<close>, with the
  items built so far; an exception leaves the loop with the directory as it is then.
\<close>

fun map_videos_loop ::
  "config \<Rightarrow> (string \<Rightarrow> response option) \<Rightarrow> (string \<times> string \<times> string) list \<Rightarrow>
   title_item list \<Rightarrow> world \<Rightarrow> (error + title_item list) \<times> world" where
  "map_videos_loop cfg net [] items w = (Inr items, w)"
| "map_videos_loop cfg net ((title, video_url, art_url) # rest) items w =
     (case channel_view video_url of
        Inl e \<Rightarrow> (Inl e, w)
      | Inr (channel, view) \<Rightarrow>
          (case download_fanart cfg net art_url w of
             (Inl e, w') \<Rightarrow> (Inl e, w')
           | (Inr art, w') \<Rightarrow>
               map_videos_loop cfg net rest
                 (items @ [\<lparr>label = title,
                            path = Play_video channel view,
                            art_dict = [(''thumb'', art), (''fanart'', art), (''icon'', art)],
                            info_dict = [(''plot'', ''Title: '' @ title @ [CHR 0x0A] @
                                                    ''Channel: '' @ channel)],
                            is_playable = True\<rparr>]) w'))"

definition map_videos ::
  "config \<Rightarrow> (string \<Rightarrow> response option) \<Rightarrow> string list \<Rightarrow> string list \<Rightarrow> string list \<Rightarrow>
   world \<Rightarrow> (error + title_item list) \<times> world" where
  "map_videos cfg net titles video_urls art_urls w =
     map_videos_loop cfg net (zip titles (zip video_urls art_urls)) [] w"

section \<open>Stream URL resolution\<close>

text \<open>
  \<^verbatim>\<open>urllib.parse.quote\<close> and \<^verbatim>\<open>urlencode\<close> (Python 3): a byte outside the unreserved
  set and \<open>safe\<close> becomes \<^verbatim>\<open>%XX\<close> with upper-case digits.
\<close>

definition always_safe :: string where
  "always_safe =
     ''ABCDEFGHIJKLMNOPQRSTUVWXYZabcdefghijklmnopqrstuvwxyz0123456789_.-~''"

definition hex_digit :: "nat \<Rightarrow> char" where
  "hex_digit n = ''0123456789ABCDEF'' ! (n mod 16)"

definition quote :: "string \<Rightarrow> string \<Rightarrow> string" where
  "quote safe s =
     concat (map (\<lambda>c. if c \<in> set always_safe \<or> c \<in> set safe then [c]
                       else [CHR ''%'', hex_digit (of_char c div 16), hex_digit (of_char c)]) s)"

definition quote_plus :: "string \<Rightarrow> string" where
  "quote_plus s =
     (if CHR '' '' \<notin> set s then quote [] s
      else map (\<lambda>c. if c = CHR '' '' then CHR ''+'' else c) (quote '' '' s))"

fun join :: "string \<Rightarrow> string list \<Rightarrow> string" where
  "join sep [] = []"
| "join sep [x] = x"
| "join sep (x # y # ys) = x @ sep @ join sep (y # ys)"

definition urlencode :: "(string \<times> string) list \<Rightarrow> string" where
  "urlencode query = join ''&'' (map (\<lambda>(k, v). quote_plus k @ ''='' @ quote_plus v) query)"

text \<open>
  The module's \<^verbatim>\<open>requests\<close> session: its cookies as the dictionary
  \<^verbatim>\<open>session.cookies.get_dict()\<close> (one value per name) and its own headers.
\<close>

record session =
  cookies :: "(string \<times> string) list"
  headers :: "(string \<times> string) list"



definition kodi_header :: "session \<Rightarrow> string" where
  "kodi_header s =
     (let header = foldl (\<lambda>header (element, v). header @ element @ ''='' @ v @ '';'')
                     [] (cookies s);
          header = butlast header
      in ''|'' @ ''Cookie='' @ quote ''/'' header @ ''&'' @ urlencode (headers s))"

text \<open>
  What \<^verbatim>\<open>retrieve_video_url\<close> reads off the parsed page: for each of the two elements,
  \<open>None\<close> when \<^verbatim>\<open>soup.find\<close> finds no element, \<open>Some None\<close> when the element lacks the
  attribute, \<open>Some (Some v)\<close> otherwise.
\<close>

record page =
  og_video :: "string option option"
  data_view_key :: "string option option"

definition BASE_URL :: string where
  "BASE_URL = ''https://tv.gab.com''"

text \<open>
  \<open>get\<close> is \<^verbatim>\<open>session.get(url, headers=headers)\<close> followed by the parse: \<open>None\<close> when
  the request raises, else the page and the session with the cookies the response set.
\<close>

definition retrieve_video_url ::
  "(session \<Rightarrow> string \<Rightarrow> (page \<times> session) option) \<Rightarrow> session \<Rightarrow> string \<Rightarrow> string \<Rightarrow>
   error + string" where
  "retrieve_video_url get s channel view =
     (let url = BASE_URL @ ''/channel/'' @ channel @ ''/view/'' @ view
      in case get s url of
           None \<Rightarrow> Inl NetworkFailure
         | Some (pg, s') \<Rightarrow>
             (case og_video pg of
                None \<Rightarrow> Inl AttributeError
              | Some media \<Rightarrow>
                  (case data_view_key pg of
                     None \<Rightarrow> Inl AttributeError
                   | Some view_key \<Rightarrow>
                       (case (media, view_key) of
                          (Some media, Some view_key) \<Rightarrow>
                            (let resolution = ''1080p''
                             in Inr (media @ ''?viewKey='' @ view_key @ ''&r='' @ resolution @
                                     kodi_header s'))
                        | _ \<Rightarrow> Inl TypeError))))"

section \<open>Runs of the thumbnail cache and sample inputs\<close>

text \<open>
  Successive calls of \<^verbatim>\<open>download_fanart\<close>, each on the directory the previous one left.
\<close>

definition downloads ::
  "config \<Rightarrow> (string \<Rightarrow> response option) \<Rightarrow> string list \<Rightarrow> world \<Rightarrow> world" where
  "downloads cfg net urls w = foldl (\<lambda>w url. snd (download_fanart cfg net url w)) w urls"

text \<open>A server that answers every request with a PNG image.\<close>

definition png_net :: "string \<Rightarrow> response option" where
  "png_net url = Some \<lparr>content_type = Some ''image/png'', body = ''PNG''\<rparr>"

text \<open>A file system whose listing shows a new file first.\<close>

definition listed_first :: "string list \<Rightarrow> string \<Rightarrow> nat" where
  "listed_first ls name = 0"

definition empty_dir :: world where
  "empty_dir = \<lparr>files = [], clock = 0, fetched = [], place = listed_first\<rparr>"

definition two_files :: world where
  "two_files =
     \<lparr>files = [\<lparr>fname = ''gabtv_a.png'', mtime = 0, data = ''A''\<rparr>,
               \<lparr>fname = ''gabtv_b.png'', mtime = 1, data = ''B''\<rparr>],
      clock = 2, fetched = [], place = listed_first\<rparr>"

text \<open>One file whose modification time is the time of the next write.\<close>

definition tie_dir :: world where
  "tie_dir =
     \<lparr>files = [\<lparr>fname = ''gabtv_a.png'', mtime = 2, data = ''A''\<rparr>],
      clock = 2, fetched = [], place = listed_first\<rparr>"

definition cfg_of :: "int \<Rightarrow> config" where
  "cfg_of m = \<lparr>addon_dir = ''/addon'', cache_size = Some m\<rparr>"

text \<open>A detail page and a session for the stream URL.\<close>

definition cdn_page :: page where
  "cdn_page = \<lparr>og_video = Some (Some ''https://cdn/video''),
               data_view_key = Some (Some ''abc123'')\<rparr>"

definition one_cookie :: session where
  "one_cookie = \<lparr>cookies = [(''a'', ''1'')], headers = []\<rparr>"

definition cdn_get :: "session \<Rightarrow> string \<Rightarrow> (page \<times> session) option" where
  "cdn_get s url = Some (cdn_page, s)"


text \<open>The item and the directory that mapping one video into an empty directory gives.\<close>

definition chan42_item :: title_item where
  "chan42_item =
     \<lparr>label = ''Title'', path = Play_video ''CHAN42'' ''V99'',
      art_dict = [(''thumb'', ''/addon/resources/thumbnails/gabtv_a.png''),
                  (''fanart'', ''/addon/resources/thumbnails/gabtv_a.png''),
                  (''icon'', ''/addon/resources/thumbnails/gabtv_a.png'')],
      info_dict = [(''plot'', ''Title: Title'' @ [CHR 0x0A] @ ''Channel: CHAN42'')],
      is_playable = True\<rparr>"

definition dir_after_a :: world where
  "dir_after_a =
     \<lparr>files = [\<lparr>fname = ''gabtv_a.png'', mtime = 0, data = ''PNG''\<rparr>], clock = 1,
      fetched = [''https://tv.gab.com/img/a''], place = listed_first\<rparr>"

section \<open>Facts about the primitives\<close>

lemma split_nonempty: "split c s \<noteq> []"
proof (induction s)
  case Nil
  then show ?case by simp
next
  case (Cons x xs)
  then show ?case by (cases "split c xs") auto
qed

lemma split_no_sep: "seg \<in> set (split c s) \<Longrightarrow> c \<notin> set seg"
proof (induction s arbitrary: seg)
  case Nil
  then show ?case by simp
next
  case (Cons x xs)
  obtain y ys where ys: "split c xs = y # ys"
    using split_nonempty [of c xs] by (cases "split c xs") auto
  show ?case
  proof (cases "x = c")
    case True
    with Cons show ?thesis by auto
  next
    case False
    with Cons.prems ys have "seg = x # y \<or> seg \<in> set ys" by simp
    then show ?thesis
    proof
      assume "seg = x # y"
      moreover have "c \<notin> set y" using Cons.IH [of y] ys by simp
      ultimately show ?thesis using False by auto
    next
      assume "seg \<in> set ys"
      then show ?thesis using Cons.IH [of seg] ys by simp
    qed
  qed
qed

lemma last_split_no_sep: "c \<notin> set (last (split c s))"
  using split_no_sep [of "last (split c s)" c s] split_nonempty [of c s] by simp

lemma split_no_sep_id: "c \<notin> set s \<Longrightarrow> split c s = [s]"
  by (induction s) auto

lemma rfind_absent: "c \<notin> set s \<Longrightarrow> rfind c s = - 1"
proof -
  assume "c \<notin> set s"
  then have "takeWhile (\<lambda>x. x \<noteq> c) (rev s) = rev s"
    by (auto simp: takeWhile_eq_all_conv)
  then show ?thesis unfolding rfind_def by (simp only: length_rev)
qed

lemma rfind_last: "c \<notin> set t \<Longrightarrow> rfind c (a @ c # t) = int (length a)"
proof -
  assume "c \<notin> set t"
  then have "takeWhile (\<lambda>x. x \<noteq> c) (rev t @ c # rev a) = rev t"
    by (simp add: takeWhile_append)
  then show ?thesis by (simp add: rfind_def)
qed

lemma splitext_root_ext:
  assumes "CHR ''.'' \<notin> set ext" and "CHR ''/'' \<notin> set (a @ ext)"
    and "a \<noteq> []" and "hd a \<noteq> CHR ''.''"
  shows "splitext_root (a @ ''.'' @ ext) = a"
proof -
  have sep: "rfind CHR ''/'' (a @ ''.'' @ ext) = - 1"
    using assms(2) by (intro rfind_absent) auto
  have dot: "rfind CHR ''.'' (a @ ''.'' @ ext) = int (length a)"
    using rfind_last [OF assms(1), of a] by simp
  obtain x xs where a: "a = x # xs" and x: "x \<noteq> CHR ''.''"
    using assms(3,4) by (cases a) auto
  have tk: "take (nat (int (length a))) (a @ ''.'' @ ext) = a"
    by simp
  have ex: "list_ex (\<lambda>c. c \<noteq> CHR ''.'') (drop (nat (- 1 + 1)) a)"
    using a x by simp
  show ?thesis
    unfolding splitext_root_def sep dot Let_def tk
    using ex by simp
qed

lemma insort_key_snoc:
  "k x \<le> k z \<Longrightarrow> insort_key k x (ys @ [z]) = insort_key k x ys @ [z]"
  by (induction ys) auto

lemma insort_key_last:
  "\<forall>x\<in>set ys. k x < k z \<Longrightarrow> insort_key k z ys = ys @ [z]"
  by (induction ys) auto

lemma sort_key_newest:
  "\<forall>x\<in>set (xs @ ys). k x < k z \<Longrightarrow> sort_key k (xs @ z # ys) = sort_key k (xs @ ys) @ [z]"
proof (induction xs)
  case Nil
  then have "\<forall>x\<in>set (sort_key k ys). k x < k z" by simp
  then show ?case by (simp add: insort_key_last)
next
  case (Cons x xs)
  then have "sort_key k (xs @ z # ys) = sort_key k (xs @ ys) @ [z]" by simp
  moreover have "k x \<le> k z" using Cons.prems by (simp add: less_imp_le)
  ultimately show ?case by (simp add: insort_key_snoc)
qed

lemma find_first_match:
  "\<forall>y\<in>set xs. \<not> P y \<Longrightarrow> P x \<Longrightarrow> find P (xs @ x # ys) = Some x"
  by (induction xs) auto

lemma slice_to_spares_last:
  assumes "1 \<le> m"
  shows "\<exists>e\<le>length ys. slice_to (ys @ [z]) (int (length (ys @ [z])) - m) = take e ys"
proof -
  let ?n = "int (length (ys @ [z]))"
  let ?e = "nat (if ?n - m < 0 then max (?n - m + ?n) 0 else min (?n - m) ?n)"
  have le: "?e \<le> length ys" using assms by (auto simp: max_def min_def)
  have "slice_to (ys @ [z]) (?n - m) = take ?e (ys @ [z])"
    by (simp add: slice_to_def Let_def)
  also have "\<dots> = take ?e ys" using le by simp
  finally show ?thesis using le by blast
qed

section \<open>Facts about the thumbnail directory\<close>

lemma files_foldl_os_remove:
  "files (foldl os_remove w ns) = filter (\<lambda>f. fname f \<notin> set ns) (files w)"
  by (induction ns arbitrary: w) (auto simp: os_remove_def intro: filter_cong)

lemma fetched_foldl_os_remove: "fetched (foldl os_remove w ns) = fetched w"
  by (induction ns arbitrary: w) (auto simp: os_remove_def)

lemma files_evict:
  "files (evict m w) = filter (\<lambda>f. fname f \<notin> set (del_list m w)) (files w)"
  by (simp add: evict_def files_foldl_os_remove)

lemma fetched_evict: "fetched (evict m w) = fetched w"
  by (simp add: evict_def fetched_foldl_os_remove)

lemma set_sorted_ls: "set (sorted_ls w) = set (listdir w)"
  by (simp add: sorted_ls_def listdir_def)

lemma length_sorted_ls: "length (sorted_ls w) = length (files w)"
  by (simp add: sorted_ls_def)

lemma distinct_sorted_ls: "distinct (listdir w) \<Longrightarrow> distinct (sorted_ls w)"
  by (simp add: listdir_def sorted_ls_def distinct_map)

lemma del_list_nonpos: "m \<le> 0 \<Longrightarrow> del_list m w = sorted_ls w"
  by (simp add: del_list_def slice_to_def Let_def)

lemma del_list_within:
  "0 \<le> m \<Longrightarrow> m \<le> int (length (files w)) \<Longrightarrow>
   del_list m w = take (length (files w) - nat m) (sorted_ls w)"
  by (auto simp: del_list_def slice_to_def Let_def length_sorted_ls nat_diff_distrib' min_def)

lemma del_list_beyond:
  "int (length (files w)) < m \<Longrightarrow>
   del_list m w = take (2 * length (files w) - nat m) (sorted_ls w)"
  apply (auto simp: del_list_def slice_to_def Let_def length_sorted_ls max_def)
  apply (rule arg_cong [where f = "\<lambda>n. take n (sorted_ls w)"])
  apply linarith
  done

lemma files_evict_nonpos: "m \<le> 0 \<Longrightarrow> files (evict m w) = []"
proof -
  assume "m \<le> 0"
  then have "set (del_list m w) = fname ` set (files w)"
    by (simp add: del_list_nonpos set_sorted_ls listdir_def)
  then show ?thesis by (simp add: files_evict)
qed

lemma files_evict_full: "m = int (length (files w)) \<Longrightarrow> files (evict m w) = files w"
  by (simp add: files_evict del_list_def slice_to_def length_sorted_ls)

lemma files_evict_subset: "set (files (evict m w)) \<subseteq> set (files w)"
  by (auto simp: files_evict)

lemma evict_keeps_newest:
  assumes d: "distinct (listdir w)" and m0: "0 \<le> m" and mn: "m \<le> int (length (files w))"
  shows "set (listdir (evict m w)) = set (drop (length (files w) - nat m) (sorted_ls w))"
    and "int (length (files (evict m w))) = m"
proof -
  let ?k = "length (files w) - nat m"
  have del: "del_list m w = take ?k (sorted_ls w)"
    using m0 mn by (rule del_list_within)
  have ds: "distinct (sorted_ls w)" using d by (rule distinct_sorted_ls)
  have split: "take ?k (sorted_ls w) @ drop ?k (sorted_ls w) = sorted_ls w" by simp
  have disj: "set (take ?k (sorted_ls w)) \<inter> set (drop ?k (sorted_ls w)) = {}"
    using ds split by (metis distinct_append)
  have un: "set (take ?k (sorted_ls w)) \<union> set (drop ?k (sorted_ls w)) = set (listdir w)"
    using split set_sorted_ls [of w] by (metis set_append)
  have "set (listdir (evict m w)) = set (listdir w) - set (take ?k (sorted_ls w))"
    by (auto simp: listdir_def files_evict del)
  then show names: "set (listdir (evict m w)) = set (drop ?k (sorted_ls w))"
    using disj un by blast
  have dl: "distinct (listdir (evict m w))"
    using d by (simp add: listdir_def files_evict distinct_map_filter)
  have "length (files (evict m w)) = length (listdir (evict m w))"
    by (simp add: listdir_def)
  also have "\<dots> = card (set (listdir (evict m w)))"
    using dl by (simp add: distinct_card)
  also have "\<dots> = card (set (drop ?k (sorted_ls w)))" using names by simp
  also have "\<dots> = length (drop ?k (sorted_ls w))"
    using ds by (simp add: distinct_card)
  also have "\<dots> = nat m" using m0 mn by (simp add: length_sorted_ls)
  finally show "int (length (files (evict m w))) = m" using m0 by simp
qed

lemma write_file_new:
  "name \<notin> set (listdir w) \<Longrightarrow>
   files (write_file name bytes w) =
     take (place w (listdir w) name) (files w) @
     \<lparr>fname = name, mtime = clock w, data = bytes\<rparr> #
     drop (place w (listdir w) name) (files w)"
  by (simp add: write_file_def Let_def)

lemma fetched_write_file: "fetched (write_file name bytes w) = fetched w"
  by (simp add: write_file_def Let_def)

lemma listdir_write_file:
  "listdir (write_file name bytes w) =
     (if name \<in> set (listdir w) then listdir w
      else take (place w (listdir w) name) (listdir w) @ name #
           drop (place w (listdir w) name) (listdir w))"
proof -
  have "map fname (map (\<lambda>g. if fname g = name then f else g) fs) = map fname fs"
    if "fname f = name" for f :: entry and fs
    using that by (induction fs) auto
  then show ?thesis
    by (simp add: write_file_def Let_def listdir_def take_map drop_map)
qed

lemma written_entry:
  "\<lparr>fname = name, mtime = clock w, data = bytes\<rparr> \<in> set (files (write_file name bytes w))"
  by (auto simp: write_file_def Let_def listdir_def image_iff)

lemma ext_no_slash: "CHR ''/'' \<notin> set (extension_of r)"
  by (cases "content_type r") (simp_all add: extension_of_def last_split_no_sep)

lemma cache_name_root:
  "CHR ''.'' \<notin> set (extension_of r) \<Longrightarrow>
   splitext_root (''gabtv_'' @ last (split CHR ''/'' url) @ ''.'' @ extension_of r) =
     ''gabtv_'' @ last (split CHR ''/'' url)"
  using splitext_root_ext [of "extension_of r" "''gabtv_'' @ last (split CHR ''/'' url)"]
    ext_no_slash [of r] last_split_no_sep [of "CHR ''/''" url]
  by simp

lemma cached_None: "cached key w = None \<Longrightarrow> s \<in> set (listdir w) \<Longrightarrow> splitext_root s \<noteq> ''gabtv_'' @ key"
  by (auto simp: cached_def find_None_iff)

lemma download_fanart_hit:
  "cached (last (split CHR ''/'' url)) w = Some s \<Longrightarrow>
   download_fanart cfg net url w = enforce cfg (thumbnail cfg s) w"
  by (simp add: download_fanart_def)

lemma download_fanart_miss:
  "cached (last (split CHR ''/'' url)) w = None \<Longrightarrow> net url = Some r \<Longrightarrow>
   download_fanart cfg net url w =
     enforce cfg (thumbnail cfg (''gabtv_'' @ last (split CHR ''/'' url) @ ''.'' @ extension_of r))
       (write_file (''gabtv_'' @ last (split CHR ''/'' url) @ ''.'' @ extension_of r) (body r)
          (w\<lparr>fetched := fetched w @ [url]\<rparr>))"
  by (simp add: download_fanart_def Let_def)

lemma download_fanart_ok:
  assumes "cache_size cfg = Some m" and "net url \<noteq> None"
  shows "\<exists>p w'. download_fanart cfg net url w = (Inr p, w')"
proof (cases "cached (last (split CHR ''/'' url)) w")
  case (Some s)
  then show ?thesis using assms(1) by (simp add: download_fanart_def enforce_def)
next
  case None
  then show ?thesis
    using assms by (auto simp: download_fanart_def enforce_def Let_def)
qed

lemma download_fanart_no_request_failure:
  assumes "cache_size cfg = Some m"
    and "fst (download_fanart cfg net url w) \<noteq> Inl NetworkFailure"
  shows "\<exists>p w'. download_fanart cfg net url w = (Inr p, evict m w')"
proof (cases "cached (last (split CHR ''/'' url)) w")
  case (Some s)
  then have "download_fanart cfg net url w = (Inr (thumbnail cfg s), evict m w)"
    using assms(1) by (simp add: download_fanart_def enforce_def)
  then show ?thesis by blast
next
  case None
  note miss = this
  show ?thesis
  proof (cases "net url")
    case None
    with miss assms(2) show ?thesis
      by (simp add: download_fanart_def)
  next
    case (Some r)
    then have "download_fanart cfg net url w =
        (Inr (thumbnail cfg (''gabtv_'' @ last (split CHR ''/'' url) @ ''.'' @ extension_of r)),
         evict m (write_file (''gabtv_'' @ last (split CHR ''/'' url) @ ''.'' @ extension_of r)
                    (body r) (w\<lparr>fetched := fetched w @ [url]\<rparr>)))"
      using miss assms(1) download_fanart_miss [of url w net r cfg]
      by (simp add: enforce_def)
    then show ?thesis by blast
  qed
qed

lemma miss_step:
  assumes size: "cache_size cfg = Some m" and m: "1 \<le> m"
    and miss: "cached (last (split CHR ''/'' url)) w = None"
    and net: "net url = Some r"
    and ext: "CHR ''.'' \<notin> set (extension_of r)"
    and times: "\<forall>f\<in>set (files w). mtime f < clock w"
  defines "name \<equiv> ''gabtv_'' @ last (split CHR ''/'' url) @ ''.'' @ extension_of r"
  shows "\<exists>w1. download_fanart cfg net url w = (Inr (thumbnail cfg name), w1) \<and>
           fetched w1 = fetched w @ [url] \<and>
           cached (last (split CHR ''/'' url)) w1 = Some name"
proof -
  let ?key = "last (split CHR ''/'' url)"
  let ?w0 = "w\<lparr>fetched := fetched w @ [url]\<rparr>"
  let ?f = "\<lparr>fname = name, mtime = clock w, data = body r\<rparr>"
  let ?w' = "write_file name (body r) ?w0"
  let ?w1 = "evict m ?w'"
  let ?k = "place w (listdir w) name"
  have root: "splitext_root name = ''gabtv_'' @ ?key"
    unfolding name_def using ext by (rule cache_name_root)
  have old: "s \<in> set (listdir w) \<Longrightarrow> splitext_root s \<noteq> ''gabtv_'' @ ?key" for s
    using cached_None [OF miss] .
  have new: "name \<notin> set (listdir w)"
    using old [of name] root by blast
  have ld0: "listdir ?w0 = listdir w" by (simp add: listdir_def)
  have fs: "files ?w' = take ?k (files w) @ ?f # drop ?k (files w)"
    using write_file_new [of name ?w0 "body r"] new ld0 by simp
  have "\<forall>x\<in>set (take ?k (files w) @ drop ?k (files w)). mtime x < mtime ?f"
    using times by simp
  then have "sort_key mtime (take ?k (files w) @ ?f # drop ?k (files w)) =
      sort_key mtime (take ?k (files w) @ drop ?k (files w)) @ [?f]"
    by (rule sort_key_newest)
  then have srt: "sorted_ls ?w' = sorted_ls w @ [name]"
    by (simp add: sorted_ls_def fs)
  obtain e where e: "e \<le> length (sorted_ls w)"
    and sl: "slice_to (sorted_ls w @ [name]) (int (length (sorted_ls w @ [name])) - m) =
               take e (sorted_ls w)"
    using slice_to_spares_last [OF m, of "sorted_ls w" name] by blast
  have del: "del_list m ?w' = take e (sorted_ls w)"
    unfolding del_list_def srt using sl .
  have sub: "set (del_list m ?w') \<subseteq> set (listdir w)"
    unfolding del set_sorted_ls [symmetric] by (rule set_take_subset)
  have keep: "name \<notin> set (del_list m ?w')" using sub new by blast
  let ?keep = "\<lambda>f. fname f \<notin> set (del_list m ?w')"
  have fs1: "files ?w1 = filter ?keep (take ?k (files w)) @ ?f # filter ?keep (drop ?k (files w))"
    using keep by (simp add: files_evict fs)
  have ld1: "listdir ?w1 =
      map fname (filter ?keep (take ?k (files w))) @ name #
      map fname (filter ?keep (drop ?k (files w)))"
    by (simp add: listdir_def fs1)
  have hit: "cached ?key ?w1 = Some name"
    unfolding cached_def ld1
  proof (rule find_first_match)
    show "\<forall>y\<in>set (map fname (filter ?keep (take ?k (files w)))).
            splitext_root y \<noteq> ''gabtv_'' @ ?key"
      using old by (auto simp: listdir_def dest: in_set_takeD)
    show "splitext_root name = ''gabtv_'' @ ?key" by (rule root)
  qed
  have run: "download_fanart cfg net url w = (Inr (thumbnail cfg name), ?w1)"
    using download_fanart_miss [of url w net r cfg] miss net size
    by (simp add: enforce_def name_def)
  have log: "fetched ?w1 = fetched w @ [url]"
    by (simp add: fetched_evict fetched_write_file)
  show ?thesis using run log hit by blast
qed

section \<open>Facts about the mapper and the stream URL\<close>

lemma channel_view_ok:
  "4 < length (split CHR ''/'' r) \<Longrightarrow>
   channel_view r = Inr (split CHR ''/'' r ! 2, split CHR ''/'' r ! 4)"
  by (simp add: channel_view_def item_def)

lemma channel_view_Inr:
  "channel_view r = Inr (c, v) \<Longrightarrow>
   4 < length (split CHR ''/'' r) \<and> c = split CHR ''/'' r ! 2 \<and> v = split CHR ''/'' r ! 4"
  by (auto simp: channel_view_def item_def split: if_splits)

lemma map_videos_loop_ok:
  assumes "cache_size cfg = Some m"
    and "\<forall>z\<in>set zs. 4 < length (split CHR ''/'' (fst (snd z))) \<and> net (snd (snd z)) \<noteq> None"
  shows "\<exists>new w'. map_videos_loop cfg net zs acc w = (Inr (acc @ new), w') \<and>
           map label new = map fst zs \<and>
           map path new = map (\<lambda>z. Play_video (split CHR ''/'' (fst (snd z)) ! 2) (split CHR ''/'' (fst (snd z)) ! 4)) zs \<and>
           (\<forall>it\<in>set new. is_playable it)"
  using assms(2)
proof (induction zs arbitrary: acc w)
  case Nil
  then show ?case by simp
next
  case (Cons z zs)
  obtain title video_url art_url where z: "z = (title, video_url, art_url)"
    by (cases z) auto
  have cv: "channel_view video_url =
      Inr (split CHR ''/'' video_url ! 2, split CHR ''/'' video_url ! 4)"
    using Cons.prems z by (simp add: channel_view_ok)
  obtain art w1 where dl: "download_fanart cfg net art_url w = (Inr art, w1)"
    using download_fanart_ok [OF assms(1), of net art_url w] Cons.prems z by auto
  let ?it = "\<lparr>label = title,
             path = Play_video (split CHR ''/'' video_url ! 2) (split CHR ''/'' video_url ! 4),
             art_dict = [(''thumb'', art), (''fanart'', art), (''icon'', art)],
             info_dict = [(''plot'', ''Title: '' @ title @ [CHR 0x0A] @ ''Channel: '' @
                                     split CHR ''/'' video_url ! 2)],
             is_playable = True\<rparr>"
  have step: "map_videos_loop cfg net (z # zs) acc w = map_videos_loop cfg net zs (acc @ [?it]) w1"
    by (simp add: z cv dl)
  obtain new w' where rest: "map_videos_loop cfg net zs (acc @ [?it]) w1 = (Inr ((acc @ [?it]) @ new), w')"
    and lab: "map label new = map fst zs"
    and pth: "map path new = map (\<lambda>z. Play_video (split CHR ''/'' (fst (snd z)) ! 2) (split CHR ''/'' (fst (snd z)) ! 4)) zs"
    and play: "\<forall>it\<in>set new. is_playable it"
    using Cons.IH [of "acc @ [?it]" w1] Cons.prems by auto
  have "map_videos_loop cfg net (z # zs) acc w = (Inr (acc @ (?it # new)), w')"
    using step rest by simp
  moreover have "map label (?it # new) = map fst (z # zs)" using lab z by simp
  moreover have "map path (?it # new) = map (\<lambda>z. Play_video (split CHR ''/'' (fst (snd z)) ! 2) (split CHR ''/'' (fst (snd z)) ! 4)) (z # zs)"
    using pth z by simp
  moreover have "\<forall>it\<in>set (?it # new). is_playable it" using play by simp
  ultimately show ?case by blast
qed

lemma map_videos_loop_Inr:
  assumes "map_videos_loop cfg net zs acc w = (Inr items, w')"
  shows "\<exists>new. items = acc @ new \<and> length new = length zs \<and>
           map path new = map (\<lambda>z. Play_video (split CHR ''/'' (fst (snd z)) ! 2) (split CHR ''/'' (fst (snd z)) ! 4)) zs"
  using assms
proof (induction zs arbitrary: acc w)
  case Nil
  then show ?case by simp
next
  case (Cons z zs)
  obtain title video_url art_url where z: "z = (title, video_url, art_url)"
    by (cases z) auto
  from Cons.prems z obtain channel view where cv: "channel_view video_url = Inr (channel, view)"
    by (cases "channel_view video_url") auto
  from Cons.prems z cv obtain art w1 where dl: "download_fanart cfg net art_url w = (Inr art, w1)"
    by (cases "download_fanart cfg net art_url w") (auto split: sum.splits)
  let ?it = "\<lparr>label = title, path = Play_video channel view,
             art_dict = [(''thumb'', art), (''fanart'', art), (''icon'', art)],
             info_dict = [(''plot'', ''Title: '' @ title @ [CHR 0x0A] @ ''Channel: '' @ channel)],
             is_playable = True\<rparr>"
  have "map_videos_loop cfg net zs (acc @ [?it]) w1 = (Inr items, w')"
    using Cons.prems by (simp add: z cv dl)
  then obtain new where new: "items = (acc @ [?it]) @ new" "length new = length zs"
    "map path new = map (\<lambda>z. Play_video (split CHR ''/'' (fst (snd z)) ! 2) (split CHR ''/'' (fst (snd z)) ! 4)) zs"
    using Cons.IH by blast
  have "path ?it = Play_video (split CHR ''/'' video_url ! 2) (split CHR ''/'' video_url ! 4)"
    using channel_view_Inr [OF cv] by simp
  then have "items = acc @ (?it # new) \<and> length (?it # new) = length (z # zs) \<and>
      map path (?it # new) = map (\<lambda>z. Play_video (split CHR ''/'' (fst (snd z)) ! 2) (split CHR ''/'' (fst (snd z)) ! 4)) (z # zs)"
    using new z by simp
  then show ?case by blast
qed








lemma retrieve_video_url_found:
  assumes "get s (BASE_URL @ ''/channel/'' @ channel @ ''/view/'' @ view) = Some (pg, s')"
    and "og_video pg = Some (Some media)"
    and "data_view_key pg = Some (Some view_key)"
  shows "retrieve_video_url get s channel view =
           Inr (media @ ''?viewKey='' @ view_key @ ''&r='' @ ''1080p'' @ kodi_header s')"
  using assms by (simp add: retrieve_video_url_def)

lemma retrieve_video_url_shape:
  assumes "retrieve_video_url get s channel view = Inr u"
  shows "\<exists>media view_key s'. u = media @ ''?viewKey='' @ view_key @ ''&r=1080p'' @ kodi_header s'"
  using assms
  by (auto simp: retrieve_video_url_def Let_def split: option.splits prod.splits)

section \<open>Evaluations on the sample inputs\<close>

lemma key_a: "last (split CHR ''/'' ''https://tv.gab.com/img/a'') = ''a''"
  by simp

lemma key_b: "last (split CHR ''/'' ''https://tv.gab.com/img/b'') = ''b''"
  by simp

lemma key_c: "last (split CHR ''/'' ''https://tv.gab.com/img/c'') = ''c''"
  by simp

lemma key_d: "last (split CHR ''/'' ''https://tv.gab.com/img/d'') = ''d''"
  by simp

lemma png_ext: "extension_of \<lparr>content_type = Some ''image/png'', body = b\<rparr> = ''png''"
  by (simp add: extension_of_def)

lemma root_png: "CHR ''.'' \<notin> set k \<Longrightarrow> CHR ''/'' \<notin> set k \<Longrightarrow>
    splitext_root (''gabtv_'' @ k @ ''.png'') = ''gabtv_'' @ k"
  using splitext_root_ext [of "''png''" "''gabtv_'' @ k"] by simp

lemma roots: "splitext_root ''gabtv_a.png'' = ''gabtv_a''"
  "splitext_root ''gabtv_b.png'' = ''gabtv_b''"
  "splitext_root ''gabtv_c.png'' = ''gabtv_c''"
  "splitext_root ''gabtv_d.png'' = ''gabtv_d''"
  using root_png [of "''a''"] root_png [of "''b''"] root_png [of "''c''"] root_png [of "''d''"]
  by simp_all

lemma cached_two_files:
  "cached ''a'' two_files = Some ''gabtv_a.png''"
  "cached ''b'' two_files = Some ''gabtv_b.png''"
  "cached ''c'' two_files = None"
  by (simp_all add: cached_def listdir_def two_files_def roots)

lemmas step_defs = download_fanart_def cached_def listdir_def roots key_a key_b key_c key_d
  png_net_def png_ext enforce_def cfg_of_def thumbnail_def os_path_join_def join_step_def
  write_file_def evict_def del_list_def sorted_ls_def slice_to_def os_remove_def Let_def
  listed_first_def

lemma run3_a_full:
  "download_fanart (cfg_of 3) png_net ''https://tv.gab.com/img/a'' empty_dir =
     (Inr ''/addon/resources/thumbnails/gabtv_a.png'',
      \<lparr>files = [\<lparr>fname = ''gabtv_a.png'', mtime = 0, data = ''PNG''\<rparr>], clock = 1,
       fetched = [''https://tv.gab.com/img/a''], place = listed_first\<rparr>)"
  by (simp add: step_defs empty_dir_def)

lemma run3_a:
  "snd (download_fanart (cfg_of 3) png_net ''https://tv.gab.com/img/a'' empty_dir) =
     \<lparr>files = [\<lparr>fname = ''gabtv_a.png'', mtime = 0, data = ''PNG''\<rparr>], clock = 1,
      fetched = [''https://tv.gab.com/img/a''], place = listed_first\<rparr>"
  by (simp add: step_defs empty_dir_def)

lemma run3_b:
  "snd (download_fanart (cfg_of 3) png_net ''https://tv.gab.com/img/b''
     \<lparr>files = [\<lparr>fname = ''gabtv_a.png'', mtime = 0, data = ''PNG''\<rparr>], clock = 1,
      fetched = [''https://tv.gab.com/img/a''], place = listed_first\<rparr>) =
     \<lparr>files = [\<lparr>fname = ''gabtv_b.png'', mtime = 1, data = ''PNG''\<rparr>], clock = 2,
      fetched = [''https://tv.gab.com/img/a'', ''https://tv.gab.com/img/b''], place = listed_first\<rparr>"
  by (simp add: step_defs)

lemma run3_c:
  "snd (download_fanart (cfg_of 3) png_net ''https://tv.gab.com/img/c''
     \<lparr>files = [\<lparr>fname = ''gabtv_b.png'', mtime = 1, data = ''PNG''\<rparr>], clock = 2,
      fetched = [''https://tv.gab.com/img/a'', ''https://tv.gab.com/img/b''], place = listed_first\<rparr>) =
     \<lparr>files = [\<lparr>fname = ''gabtv_c.png'', mtime = 2, data = ''PNG''\<rparr>], clock = 3,
      fetched = [''https://tv.gab.com/img/a'', ''https://tv.gab.com/img/b'',
                 ''https://tv.gab.com/img/c''], place = listed_first\<rparr>"
  by (simp add: step_defs)

lemma run3_d:
  "snd (download_fanart (cfg_of 3) png_net ''https://tv.gab.com/img/d''
     \<lparr>files = [\<lparr>fname = ''gabtv_c.png'', mtime = 2, data = ''PNG''\<rparr>], clock = 3,
      fetched = [''https://tv.gab.com/img/a'', ''https://tv.gab.com/img/b'',
                 ''https://tv.gab.com/img/c''], place = listed_first\<rparr>) =
     \<lparr>files = [\<lparr>fname = ''gabtv_d.png'', mtime = 3, data = ''PNG''\<rparr>], clock = 4,
      fetched = [''https://tv.gab.com/img/a'', ''https://tv.gab.com/img/b'',
                 ''https://tv.gab.com/img/c'', ''https://tv.gab.com/img/d''], place = listed_first\<rparr>"
  by (simp add: step_defs)

lemma run0_a:
  "snd (download_fanart (cfg_of 0) png_net ''https://tv.gab.com/img/a'' empty_dir) =
     \<lparr>files = [], clock = 1, fetched = [''https://tv.gab.com/img/a''], place = listed_first\<rparr>"
  by (simp add: step_defs empty_dir_def)

lemma run0_a2:
  "snd (download_fanart (cfg_of 0) png_net ''https://tv.gab.com/img/a''
     \<lparr>files = [], clock = 1, fetched = [''https://tv.gab.com/img/a''], place = listed_first\<rparr>) =
     \<lparr>files = [], clock = 2,
      fetched = [''https://tv.gab.com/img/a'', ''https://tv.gab.com/img/a''], place = listed_first\<rparr>"
  by (simp add: step_defs)

lemma segments_example:
  "split CHR ''/'' ''/watch/CHAN42/view/V99/extra'' =
     [[], ''watch'', ''CHAN42'', ''view'', ''V99'', ''extra'']"
  by simp

lemma map_videos_example:
  "map_videos (cfg_of 3) png_net [''Title''] [''/watch/CHAN42/view/V99/extra'']
     [''https://tv.gab.com/img/a''] empty_dir = (Inr [chan42_item], dir_after_a)"
  by (simp add: map_videos_def channel_view_def item_def segments_example run3_a_full
      chan42_item_def dir_after_a_def)

section \<open>The cache bound (C1, C2, C3)\<close>

text \<open>
  C1, at a failing input. With \<open>cache_size = 3\<close> and an empty directory, four calls with
  four distinct URLs leave one file, not three: after the second write the slice end
  \<open>2 - 3 = -1\<close> is read from the end of the listing and the older file is deleted.
\<close>

theorem cache_size_three_keeps_one:
  "listdir (downloads (cfg_of 3) png_net
     [''https://tv.gab.com/img/a'', ''https://tv.gab.com/img/b'',
      ''https://tv.gab.com/img/c'', ''https://tv.gab.com/img/d''] empty_dir) =
   [''gabtv_d.png'']"
  by (simp only: downloads_def foldl.simps run3_a run3_b run3_c run3_d) (simp add: listdir_def)

text \<open>
  C2, at a failing input. Two files under \<open>cache_size = 3\<close>: the deletion list is not
  empty, the older file is deleted.
\<close>

theorem eviction_below_bound_deletes:
  "int (length (files two_files)) \<le> 3 \<and>
   del_list 3 two_files = [''gabtv_a.png''] \<and>
   listdir (evict 3 two_files) = [''gabtv_b.png'']"
  by (simp add: two_files_def del_list_def sorted_ls_def slice_to_def evict_def os_remove_def
      listdir_def)

text \<open>
  C3, as stated, fails. With \<open>cache_size = 0\<close> or \<open>-1\<close> and two files in the directory the
  deletion list is not empty: it holds both files, and the eviction step deletes them.
\<close>

theorem nonpositive_cache_size_counterexample:
  "del_list 0 two_files = [''gabtv_a.png'', ''gabtv_b.png''] \<and>
   del_list (- 1) two_files = [''gabtv_a.png'', ''gabtv_b.png''] \<and>
   listdir (evict 0 two_files) = []"
  by (simp add: two_files_def del_list_def sorted_ls_def slice_to_def evict_def os_remove_def
      listdir_def)

text \<open>
  C3, amended. With \<open>cache_size \<le> 0\<close> the slice end \<open>count - cache_size\<close> is at least
  \<open>count\<close>, so the deletion list is the whole listing: the eviction step deletes every
  file, and the directory is empty after every call that gets past its request.
\<close>

theorem nonpositive_cache_size_empties:
  assumes "m \<le> 0"
  shows "del_list m w = sorted_ls w \<and> files (evict m w) = [] \<and>
         (cache_size cfg = Some m \<and> fst (download_fanart cfg net url w) \<noteq> Inl NetworkFailure
            \<longrightarrow> files (snd (download_fanart cfg net url w)) = [])"
proof -
  have "files (snd (download_fanart cfg net url w)) = []"
    if size: "cache_size cfg = Some m"
      and ok: "fst (download_fanart cfg net url w) \<noteq> Inl NetworkFailure"
  proof -
    obtain p w' where "download_fanart cfg net url w = (Inr p, evict m w')"
      using download_fanart_no_request_failure [OF size ok] by blast
    then show ?thesis using assms by (simp add: files_evict_nonpos)
  qed
  then show ?thesis
    using assms by (simp add: del_list_nonpos files_evict_nonpos)
qed

text \<open>
  C3: the amended statement at \<open>cache_size = 0\<close> and a directory of two files.
\<close>

theorem nonpositive_cache_size_empties_witness:
  "(0::int) \<le> 0 \<and> cache_size (cfg_of 0) = Some 0 \<and>
   fst (download_fanart (cfg_of 0) png_net ''https://tv.gab.com/img/c'' two_files) \<noteq>
     Inl NetworkFailure \<and>
   del_list 0 two_files = sorted_ls two_files \<and> files (evict 0 two_files) = [] \<and>
   files (snd (download_fanart (cfg_of 0) png_net ''https://tv.gab.com/img/c'' two_files)) = []"
proof -
  have h1: "(0::int) \<le> 0" by simp
  have h2: "cache_size (cfg_of 0) = Some 0" by (simp add: cfg_of_def)
  have h3: "fst (download_fanart (cfg_of 0) png_net ''https://tv.gab.com/img/c'' two_files) \<noteq>
     Inl NetworkFailure"
    by (simp add: download_fanart_def key_c cached_two_files png_net_def enforce_def cfg_of_def
        Let_def)
  show ?thesis
    using nonpositive_cache_size_empties [OF h1, of two_files "cfg_of 0" png_net
        "''https://tv.gab.com/img/c''"] h2 h3
    by simp
qed

section \<open>Cache hits and repeated calls (C4, C5)\<close>

text \<open>
  C4, as stated, fails. Two files, \<open>cache_size = 1\<close> and a request for the newer one: the
  call is a hit, and it deletes the older file.
\<close>

theorem hit_evicts_counterexample:
  "cached (last (split CHR ''/'' ''https://tv.gab.com/img/b'')) two_files = Some ''gabtv_b.png'' \<and>
   listdir two_files = [''gabtv_a.png'', ''gabtv_b.png''] \<and>
   listdir (snd (download_fanart (cfg_of 1) png_net ''https://tv.gab.com/img/b'' two_files)) =
     [''gabtv_b.png'']"
  by (simp add: step_defs two_files_def)

text \<open>
  C4, amended. A cache hit makes no request and writes no file, but lines 176-179 run
  on every call, hit or miss: the directory after a hit is what the eviction step leaves
  of the directory before it. No file is added; when \<open>cache_size\<close> equals the file count
  nothing is deleted; and when \<open>0 \<le> cache_size \<le> count\<close> (file names distinct) exactly the
  \<open>cache_size\<close> files that come last by modification time remain.
\<close>

theorem hit_runs_eviction:
  assumes "cached (last (split CHR ''/'' url)) w = Some s"
    and "cache_size cfg = Some m"
  shows "download_fanart cfg net url w = (Inr (thumbnail cfg s), evict m w) \<and>
         fetched (evict m w) = fetched w \<and>
         set (files (evict m w)) \<subseteq> set (files w) \<and>
         (m = int (length (files w)) \<longrightarrow> files (evict m w) = files w) \<and>
         (distinct (listdir w) \<and> 0 \<le> m \<and> m \<le> int (length (files w)) \<longrightarrow>
            set (listdir (evict m w)) = set (drop (length (files w) - nat m) (sorted_ls w)) \<and>
            int (length (files (evict m w))) = m)"
proof -
  have "download_fanart cfg net url w = (Inr (thumbnail cfg s), evict m w)"
    using download_fanart_hit [OF assms(1), of cfg net] assms(2) by (simp add: enforce_def)
  then show ?thesis
    using evict_keeps_newest [of w m] files_evict_full [of m w] files_evict_subset [of m w]
    by (simp add: fetched_evict)
qed

text \<open>
  C4: the amended statement at a hit in a directory of two files with \<open>cache_size = 2\<close>.
\<close>

theorem hit_runs_eviction_witness:
  "cached (last (split CHR ''/'' ''https://tv.gab.com/img/b'')) two_files = Some ''gabtv_b.png'' \<and>
   cache_size (cfg_of 2) = Some 2 \<and>
   2 = int (length (files two_files)) \<and> distinct (listdir two_files) \<and> (0::int) \<le> 2 \<and>
   download_fanart (cfg_of 2) png_net ''https://tv.gab.com/img/b'' two_files =
     (Inr (thumbnail (cfg_of 2) ''gabtv_b.png''), evict 2 two_files) \<and>
   files (evict 2 two_files) = files two_files \<and>
   int (length (files (evict 2 two_files))) = 2"
proof -
  have h1: "cached (last (split CHR ''/'' ''https://tv.gab.com/img/b'')) two_files =
      Some ''gabtv_b.png''"
    by (simp only: key_b cached_two_files)
  have h2: "cache_size (cfg_of 2) = Some 2" by (simp add: cfg_of_def)
  have h3: "2 = int (length (files two_files))" by (simp add: two_files_def)
  have h4: "distinct (listdir two_files)" by (simp add: two_files_def listdir_def)
  show ?thesis
    using hit_runs_eviction [OF h1 h2, of png_net] h1 h2 h3 h4 by simp
qed

text \<open>
  C5, as stated, fails. With \<open>cache_size = 0\<close> the file written by the first call is
  deleted before it returns, so the second call with the same URL makes a second request.
\<close>

theorem two_fetches_counterexample:
  "fetched (downloads (cfg_of 0) png_net
     [''https://tv.gab.com/img/a'', ''https://tv.gab.com/img/a''] empty_dir) =
   [''https://tv.gab.com/img/a'', ''https://tv.gab.com/img/a'']"
  by (simp only: downloads_def foldl.simps run0_a run0_a2) simp

text \<open>
  C5, amended. When at least one file may be kept (\<open>cache_size \<ge> 1\<close>), the first call is a
  miss whose request is answered, the extension taken from the content type has no dot
  and every file in the directory has a modification time strictly earlier than the
  write (wherever the listing shows the new file), two calls in succession with the same
  URL make one request in all: the first writes \<^verbatim>\<open>gabtv_{key}.{extension}\<close>, the second
  finds that file, makes no request and returns the same path.
\<close>

theorem thumbnail_idempotent:
  assumes "cache_size cfg = Some m" and "1 \<le> m"
    and "cached (last (split CHR ''/'' url)) w = None"
    and "net url = Some r"
    and "CHR ''.'' \<notin> set (extension_of r)"
    and "\<forall>f\<in>set (files w). mtime f < clock w"
  shows "fst (download_fanart cfg net url w) =
           Inr (thumbnail cfg (''gabtv_'' @ last (split CHR ''/'' url) @ ''.'' @ extension_of r)) \<and>
         cached (last (split CHR ''/'' url)) (snd (download_fanart cfg net url w)) =
           Some (''gabtv_'' @ last (split CHR ''/'' url) @ ''.'' @ extension_of r) \<and>
         fst (download_fanart cfg net url (snd (download_fanart cfg net url w))) =
           fst (download_fanart cfg net url w) \<and>
         fetched (snd (download_fanart cfg net url (snd (download_fanart cfg net url w)))) =
           fetched w @ [url]"
proof -
  let ?name = "''gabtv_'' @ last (split CHR ''/'' url) @ ''.'' @ extension_of r"
  obtain w1 where one: "download_fanart cfg net url w = (Inr (thumbnail cfg ?name), w1)"
    and log: "fetched w1 = fetched w @ [url]"
    and hit: "cached (last (split CHR ''/'' url)) w1 = Some ?name"
    using miss_step [where cfg = cfg and m = m and url = url and w = w and net = net and r = r]
      assms by blast
  have two: "download_fanart cfg net url w1 = (Inr (thumbnail cfg ?name), evict m w1)"
    using download_fanart_hit [OF hit, of cfg net] assms(1) by (simp add: enforce_def)
  show ?thesis
    using one two log hit by (simp add: fetched_evict)
qed

text \<open>
  The modification times have to differ: when an old file carries the time of the write
  and the listing shows the new file before it, the stable sort puts the new file first
  and it is the one deleted.
\<close>

lemma tie_evicts_written:
  "fetched (downloads (cfg_of 1) png_net
     [''https://tv.gab.com/img/c'', ''https://tv.gab.com/img/c''] tie_dir) =
   [''https://tv.gab.com/img/c'', ''https://tv.gab.com/img/c'']"
proof -
  have one: "snd (download_fanart (cfg_of 1) png_net ''https://tv.gab.com/img/c'' tie_dir) =
      \<lparr>files = [\<lparr>fname = ''gabtv_a.png'', mtime = 2, data = ''A''\<rparr>], clock = 3,
       fetched = [''https://tv.gab.com/img/c''], place = listed_first\<rparr>"
    by (simp add: step_defs tie_dir_def)
  have two: "snd (download_fanart (cfg_of 1) png_net ''https://tv.gab.com/img/c''
      \<lparr>files = [\<lparr>fname = ''gabtv_a.png'', mtime = 2, data = ''A''\<rparr>], clock = 3,
       fetched = [''https://tv.gab.com/img/c''], place = listed_first\<rparr>) =
      \<lparr>files = [\<lparr>fname = ''gabtv_c.png'', mtime = 3, data = ''PNG''\<rparr>], clock = 4,
       fetched = [''https://tv.gab.com/img/c'', ''https://tv.gab.com/img/c''],
       place = listed_first\<rparr>"
    by (simp add: step_defs)
  show ?thesis
    by (simp only: downloads_def foldl.simps one two) simp
qed

text \<open>
  C5: the amended statement at a directory of two files and a third URL.
\<close>

theorem thumbnail_idempotent_witness:
  "cache_size (cfg_of 2) = Some 2 \<and> (1::int) \<le> 2 \<and>
   cached (last (split CHR ''/'' ''https://tv.gab.com/img/c'')) two_files = None \<and>
   png_net ''https://tv.gab.com/img/c'' = Some \<lparr>content_type = Some ''image/png'', body = ''PNG''\<rparr> \<and>
   CHR ''.'' \<notin> set (extension_of \<lparr>content_type = Some ''image/png'', body = ''PNG''\<rparr>) \<and>
   list_all (\<lambda>f. mtime f < clock two_files) (files two_files) \<and>
   fst (download_fanart (cfg_of 2) png_net ''https://tv.gab.com/img/c'' two_files) =
     Inr ''/addon/resources/thumbnails/gabtv_c.png'' \<and>
   fst (download_fanart (cfg_of 2) png_net ''https://tv.gab.com/img/c''
          (snd (download_fanart (cfg_of 2) png_net ''https://tv.gab.com/img/c'' two_files))) =
     Inr ''/addon/resources/thumbnails/gabtv_c.png'' \<and>
   fetched (snd (download_fanart (cfg_of 2) png_net ''https://tv.gab.com/img/c''
          (snd (download_fanart (cfg_of 2) png_net ''https://tv.gab.com/img/c'' two_files)))) =
     [''https://tv.gab.com/img/c'']"
proof -
  have h1: "cache_size (cfg_of 2) = Some 2" by (simp add: cfg_of_def)
  have h2: "(1::int) \<le> 2" by simp
  have h3: "cached (last (split CHR ''/'' ''https://tv.gab.com/img/c'')) two_files = None"
    by (simp only: key_c cached_two_files)
  have h4: "png_net ''https://tv.gab.com/img/c'' =
      Some \<lparr>content_type = Some ''image/png'', body = ''PNG''\<rparr>"
    by (simp add: png_net_def)
  have h5: "CHR ''.'' \<notin> set (extension_of \<lparr>content_type = Some ''image/png'', body = ''PNG''\<rparr>)"
    by (simp add: png_ext)
  have h6: "\<forall>f\<in>set (files two_files). mtime f < clock two_files"
    by (simp add: two_files_def)
  have p: "thumbnail (cfg_of 2) ''gabtv_c.png'' = ''/addon/resources/thumbnails/gabtv_c.png''"
    by (simp add: thumbnail_def cfg_of_def os_path_join_def join_step_def)
  have f: "fetched two_files = []" by (simp add: two_files_def)
  show ?thesis
    using thumbnail_idempotent [where cfg = "cfg_of 2" and m = 2 and w = two_files
        and url = "''https://tv.gab.com/img/c''" and net = png_net
        and r = "\<lparr>content_type = Some ''image/png'', body = ''PNG''\<rparr>"]
      h1 h2 h3 h4 h5 h6
    by (simp add: key_c png_ext p f list_all_iff)
qed

section \<open>The stream URL (C6, C10)\<close>




text \<open>
  C10. Every URL that \<^verbatim>\<open>retrieve_video_url\<close> returns contains \<^verbatim>\<open>&r=1080p\<close>, and it
  returns one whenever the request is answered and the page has both attributes: the
  resolution is the literal of line 114, between the view key and the cookie header.
\<close>

theorem resolution_is_1080p:
  "(\<forall>u. retrieve_video_url get s channel view = Inr u \<longrightarrow> sublist ''&r=1080p'' u) \<and>
   (get s (BASE_URL @ ''/channel/'' @ channel @ ''/view/'' @ view) = Some (pg, s') \<and>
    og_video pg = Some (Some media) \<and> data_view_key pg = Some (Some view_key) \<longrightarrow>
      retrieve_video_url get s channel view =
        Inr (media @ ''?viewKey='' @ view_key @ ''&r=1080p'' @ kodi_header s'))"
proof -
  have "sublist ''&r=1080p'' u" if ret: "retrieve_video_url get s channel view = Inr u" for u
  proof -
    obtain media view_key s' where
      "u = (media @ ''?viewKey='' @ view_key) @ ''&r=1080p'' @ kodi_header s'"
      using retrieve_video_url_shape [OF ret] by auto
    then show ?thesis unfolding sublist_def by blast
  qed
  then show ?thesis
    using retrieve_video_url_found [of get s channel view pg s' media view_key] by simp
qed

text \<open>
  C10: the statement at the sample page and session.
\<close>

theorem resolution_is_1080p_witness:
  "retrieve_video_url cdn_get one_cookie ''CHAN42'' ''V99'' =
     Inr (''https://cdn/video'' @ ''?viewKey='' @ ''abc123'' @ ''&r=1080p'' @ kodi_header one_cookie) \<and>
   sublist ''&r=1080p''
     (''https://cdn/video'' @ ''?viewKey='' @ ''abc123'' @ ''&r=1080p'' @ kodi_header one_cookie) \<and>
   cdn_get one_cookie (BASE_URL @ ''/channel/'' @ ''CHAN42'' @ ''/view/'' @ ''V99'') =
     Some (cdn_page, one_cookie) \<and>
   og_video cdn_page = Some (Some ''https://cdn/video'') \<and>
   data_view_key cdn_page = Some (Some ''abc123'')"
proof -
  have h1: "cdn_get one_cookie (BASE_URL @ ''/channel/'' @ ''CHAN42'' @ ''/view/'' @ ''V99'') =
     Some (cdn_page, one_cookie)" by (simp add: cdn_get_def)
  have h2: "og_video cdn_page = Some (Some ''https://cdn/video'')" by (simp add: cdn_page_def)
  have h3: "data_view_key cdn_page = Some (Some ''abc123'')" by (simp add: cdn_page_def)
  note t = resolution_is_1080p [where get = cdn_get and s = one_cookie and s' = one_cookie
        and pg = cdn_page and channel = "''CHAN42''" and view = "''V99''"
        and media = "''https://cdn/video''" and view_key = "''abc123''"]
  have run: "retrieve_video_url cdn_get one_cookie ''CHAN42'' ''V99'' =
     Inr (''https://cdn/video'' @ ''?viewKey='' @ ''abc123'' @ ''&r=1080p'' @ kodi_header one_cookie)"
    using t h1 h2 h3 by blast
  have "sublist ''&r=1080p''
     (''https://cdn/video'' @ ''?viewKey='' @ ''abc123'' @ ''&r=1080p'' @ kodi_header one_cookie)"
    using t run by blast
  then show ?thesis using run h1 h2 h3 by blast
qed

section \<open>The mapper (C7, C8)\<close>

text \<open>
  C7, as stated, fails. Three sequences of length one whose navigation reference
  \<^verbatim>\<open>/watch\<close> has two segments: the mapper raises IndexError and returns no item.
\<close>

theorem short_reference_counterexample:
  "length [''t''] = length [''/watch''] \<and> length [''/watch''] = length [''https://tv.gab.com/img/a''] \<and>
   fst (map_videos (cfg_of 3) png_net [''t''] [''/watch''] [''https://tv.gab.com/img/a''] empty_dir) =
     Inl IndexError"
  by (simp add: map_videos_def channel_view_def item_def)

text \<open>
  C7, amended. For titles, navigation references and artwork URLs of equal length \<open>n\<close>,
  when every reference has at least five slash-delimited segments, every artwork
  request is answered and \<open>cache_size\<close> is an integer, \<^verbatim>\<open>__map_videos\<close> returns exactly
  \<open>n\<close> items in the order of the inputs (labels the titles, targets the channel and view
  of the references), each with \<open>is_playable\<close> true.
\<close>

theorem map_videos_items:
  assumes "length titles = n" and "length video_urls = n" and "length art_urls = n"
    and "\<forall>r\<in>set video_urls. 4 < length (split CHR ''/'' r)"
    and "\<forall>a\<in>set art_urls. net a \<noteq> None"
    and "cache_size cfg = Some m"
  shows "\<exists>items w'. map_videos cfg net titles video_urls art_urls w = (Inr items, w') \<and>
           length items = n \<and> map label items = titles \<and>
           map path items =
             map (\<lambda>r. Play_video (split CHR ''/'' r ! 2) (split CHR ''/'' r ! 4)) video_urls \<and>
           (\<forall>it\<in>set items. is_playable it)"
proof -
  let ?zs = "zip titles (zip video_urls art_urls)"
  have fsts: "map fst ?zs = titles" using assms(1-3) by simp
  have snds: "map snd ?zs = zip video_urls art_urls" using assms(1-3) by simp
  have refs: "map (\<lambda>z. fst (snd z)) ?zs = video_urls"
  proof -
    have "map (\<lambda>z. fst (snd z)) ?zs = map fst (map snd ?zs)" by simp
    also have "\<dots> = video_urls" using assms(2,3) by (simp only: snds) simp
    finally show ?thesis .
  qed
  have ok: "\<forall>z\<in>set ?zs. 4 < length (split CHR ''/'' (fst (snd z))) \<and> net (snd (snd z)) \<noteq> None"
  proof
    fix z assume mem: "z \<in> set ?zs"
    obtain t r a where z: "z = (t, r, a)" by (cases z) auto
    have "(r, a) \<in> set (zip video_urls art_urls)"
      using mem z by (auto dest: set_zip_rightD)
    then have "fst (snd z) \<in> set video_urls" and "snd (snd z) \<in> set art_urls"
      using z by (auto dest: set_zip_leftD set_zip_rightD)
    then show "4 < length (split CHR ''/'' (fst (snd z))) \<and> net (snd (snd z)) \<noteq> None"
      using assms(4,5) by blast
  qed
  obtain new w' where run: "map_videos_loop cfg net ?zs [] w = (Inr ([] @ new), w')"
    and lab: "map label new = map fst ?zs"
    and pth: "map path new =
      map (\<lambda>z. Play_video (split CHR ''/'' (fst (snd z)) ! 2) (split CHR ''/'' (fst (snd z)) ! 4)) ?zs"
    and play: "\<forall>it\<in>set new. is_playable it"
    using map_videos_loop_ok [OF assms(6) ok, of "[]" w] by blast
  have "map (\<lambda>z. Play_video (split CHR ''/'' (fst (snd z)) ! 2) (split CHR ''/'' (fst (snd z)) ! 4)) ?zs =
      map (\<lambda>r. Play_video (split CHR ''/'' r ! 2) (split CHR ''/'' r ! 4)) (map (\<lambda>z. fst (snd z)) ?zs)"
    by (simp add: comp_def)
  then have pth': "map path new =
      map (\<lambda>r. Play_video (split CHR ''/'' r ! 2) (split CHR ''/'' r ! 4)) video_urls"
    using pth refs by simp
  have len: "length new = n"
    using lab fsts assms(1) by (metis length_map)
  show ?thesis
    using run lab fsts pth' play len by (auto simp: map_videos_def)
qed

text \<open>
  C7: the amended statement at one video and an empty directory.
\<close>

theorem map_videos_items_witness:
  "length [''Title''] = 1 \<and> length [''/watch/CHAN42/view/V99/extra''] = 1 \<and>
   length [''https://tv.gab.com/img/a''] = 1 \<and>
   list_all (\<lambda>r. 4 < length (split CHR ''/'' r)) [''/watch/CHAN42/view/V99/extra''] \<and>
   list_all (\<lambda>a. png_net a \<noteq> None) [''https://tv.gab.com/img/a''] \<and>
   cache_size (cfg_of 3) = Some 3 \<and>
   (\<exists>items w'. map_videos (cfg_of 3) png_net [''Title''] [''/watch/CHAN42/view/V99/extra'']
        [''https://tv.gab.com/img/a''] empty_dir = (Inr items, w') \<and>
      length items = 1 \<and> map label items = [''Title''] \<and>
      map path items = [Play_video ''CHAN42'' ''V99''] \<and>
      list_all is_playable items)"
proof -
  have h1: "length [''Title''] = 1" "length [''/watch/CHAN42/view/V99/extra''] = 1"
    "length [''https://tv.gab.com/img/a''] = 1" by simp_all
  have h4: "\<forall>r\<in>set [''/watch/CHAN42/view/V99/extra'']. 4 < length (split CHR ''/'' r)"
    by (simp add: segments_example)
  have h5: "\<forall>a\<in>set [''https://tv.gab.com/img/a'']. png_net a \<noteq> None"
    by (simp add: png_net_def)
  have h6: "cache_size (cfg_of 3) = Some 3" by (simp add: cfg_of_def)
  show ?thesis
    using map_videos_items [OF h1 h4 h5 h6, of empty_dir] h1 h4 h5 h6
    by (simp add: segments_example list_all_iff)
qed

text \<open>
  C8, as stated, fails. The reference \<^verbatim>\<open>/watch/CHAN42\<close> has three slash-delimited
  segments: there is no segment at index 4, line 125 raises IndexError, and neither a
  channel nor a view is extracted.
\<close>

theorem missing_segment_counterexample:
  "split CHR ''/'' ''/watch/CHAN42'' = [[], ''watch'', ''CHAN42''] \<and>
   channel_view ''/watch/CHAN42'' = Inl IndexError \<and>
   fst (map_videos (cfg_of 3) png_net [''Title''] [''/watch/CHAN42'']
          [''https://tv.gab.com/img/a''] empty_dir) = Inl IndexError"
  by (simp add: map_videos_def channel_view_def item_def)

text \<open>
  C8, amended. For every navigation reference with at least five slash-delimited
  segments the mapper takes the channel id from the segment at index 2 and the view id
  from the segment at index 4, and every item that \<^verbatim>\<open>__map_videos\<close> returns targets the
  channel and view so extracted from its reference; a reference with fewer segments
  raises IndexError. For \<^verbatim>\<open>/watch/CHAN42/view/V99/extra\<close> the channel is \<^verbatim>\<open>CHAN42\<close> and the
  view \<^verbatim>\<open>V99\<close>.
\<close>

theorem channel_view_extraction:
  "(4 < length (split CHR ''/'' r) \<longrightarrow>
      channel_view r = Inr (split CHR ''/'' r ! 2, split CHR ''/'' r ! 4)) \<and>
   (length (split CHR ''/'' r') \<le> 4 \<longrightarrow> channel_view r' = Inl IndexError) \<and>
   (map_videos cfg net titles video_urls art_urls w = (Inr items, w') \<and> i < length items \<longrightarrow>
      path (items ! i) =
        Play_video (split CHR ''/'' (video_urls ! i) ! 2) (split CHR ''/'' (video_urls ! i) ! 4)) \<and>
   channel_view ''/watch/CHAN42/view/V99/extra'' = Inr (''CHAN42'', ''V99'')"
proof -
  let ?zs = "zip titles (zip video_urls art_urls)"
  let ?f = "\<lambda>z::string \<times> string \<times> string.
      Play_video (split CHR ''/'' (fst (snd z)) ! 2) (split CHR ''/'' (fst (snd z)) ! 4)"
  have items: "path (items ! i) =
      Play_video (split CHR ''/'' (video_urls ! i) ! 2) (split CHR ''/'' (video_urls ! i) ! 4)"
    if run: "map_videos cfg net titles video_urls art_urls w = (Inr items, w')"
      and i: "i < length items"
  proof -
    obtain new where new: "items = [] @ new" "length new = length ?zs" "map path new = map ?f ?zs"
      using map_videos_loop_Inr [of cfg net ?zs "[]" w items w'] run
      by (auto simp: map_videos_def)
    have iz: "i < length ?zs" using new i by simp
    have il: "i < length new" using new(1) i by simp
    have a: "path (items ! i) = map path new ! i"
      using new(1) nth_map [OF il, of path] by simp
    have b: "map path new ! i = ?f (?zs ! i)"
      unfolding new(3) using iz by (rule nth_map)
    have c: "?zs ! i = (titles ! i, video_urls ! i, art_urls ! i)"
      using iz by simp
    show ?thesis unfolding a b c by simp
  qed
  have short: "channel_view r' = Inl IndexError" if "length (split CHR ''/'' r') \<le> 4"
    using that by (auto simp: channel_view_def item_def)
  have ex: "channel_view ''/watch/CHAN42/view/V99/extra'' = Inr (''CHAN42'', ''V99'')"
    by (simp add: channel_view_def item_def segments_example)
  show ?thesis
    using items short ex channel_view_ok [of r] by blast
qed

text \<open>
  C8: the amended statement at the references \<^verbatim>\<open>/watch/CHAN42/view/V99/extra\<close> and
  \<^verbatim>\<open>/watch/CHAN42\<close>.
\<close>

theorem channel_view_extraction_witness:
  "4 < length (split CHR ''/'' ''/watch/CHAN42/view/V99/extra'') \<and>
   length (split CHR ''/'' ''/watch/CHAN42'') \<le> 4 \<and>
   map_videos (cfg_of 3) png_net [''Title''] [''/watch/CHAN42/view/V99/extra'']
     [''https://tv.gab.com/img/a''] empty_dir = (Inr [chan42_item], dir_after_a) \<and>
   0 < length [chan42_item] \<and>
   channel_view ''/watch/CHAN42/view/V99/extra'' =
     Inr (split CHR ''/'' ''/watch/CHAN42/view/V99/extra'' ! 2,
          split CHR ''/'' ''/watch/CHAN42/view/V99/extra'' ! 4) \<and>
   channel_view ''/watch/CHAN42'' = Inl IndexError \<and>
   path ([chan42_item] ! 0) =
     Play_video (split CHR ''/'' ([''/watch/CHAN42/view/V99/extra''] ! 0) ! 2)
                (split CHR ''/'' ([''/watch/CHAN42/view/V99/extra''] ! 0) ! 4) \<and>
   path ([chan42_item] ! 0) = Play_video ''CHAN42'' ''V99''"
proof -
  have h1: "4 < length (split CHR ''/'' ''/watch/CHAN42/view/V99/extra'')"
    by (simp add: segments_example)
  have h1': "length (split CHR ''/'' ''/watch/CHAN42'') \<le> 4" by simp
  have h2: "map_videos (cfg_of 3) png_net [''Title''] [''/watch/CHAN42/view/V99/extra'']
     [''https://tv.gab.com/img/a''] empty_dir = (Inr [chan42_item], dir_after_a)"
    by (rule map_videos_example)
  have h3: "0 < length [chan42_item]" by simp
  note t = channel_view_extraction [where r = "''/watch/CHAN42/view/V99/extra''"
      and r' = "''/watch/CHAN42''"
      and cfg = "cfg_of 3" and net = png_net and titles = "[''Title'']"
      and video_urls = "[''/watch/CHAN42/view/V99/extra'']"
      and art_urls = "[''https://tv.gab.com/img/a'']" and w = empty_dir and i = 0
      and items = "[chan42_item]" and w' = dir_after_a]
  have cv: "channel_view ''/watch/CHAN42/view/V99/extra'' =
     Inr (split CHR ''/'' ''/watch/CHAN42/view/V99/extra'' ! 2,
          split CHR ''/'' ''/watch/CHAN42/view/V99/extra'' ! 4)"
    using t h1 by blast
  have sh: "channel_view ''/watch/CHAN42'' = Inl IndexError"
    using t h1' by blast
  have pth: "path ([chan42_item] ! 0) =
     Play_video (split CHR ''/'' ([''/watch/CHAN42/view/V99/extra''] ! 0) ! 2)
                (split CHR ''/'' ([''/watch/CHAN42/view/V99/extra''] ! 0) ! 4)"
    using t h2 h3 by blast
  have val: "path ([chan42_item] ! 0) = Play_video ''CHAN42'' ''V99''"
    by (simp add: chan42_item_def)
  show ?thesis
    using h1 h1' h2 h3 cv sh pth val by blast
qed

section \<open>Extension inference (C9)\<close>

text \<open>
  C9, as stated, fails. A content-type header without a slash is not replaced by the
  default: the whole header becomes the extension.
\<close>

theorem malformed_header_counterexample:
  "extension_of \<lparr>content_type = Some ''garbage'', body = []\<rparr> = ''garbage'' \<and>
   extension_of \<lparr>content_type = Some ''garbage'', body = []\<rparr> \<noteq> ''apng''"
  by (simp add: extension_of_def)

text \<open>
  C9, amended. Extension inference never raises. The default \<^verbatim>\<open>apng\<close> is used only when
  the response has no content-type header; a header that is present, whatever its shape,
  gives its last slash-delimited segment (the whole header when it has no slash). On a
  miss whose request is answered the body is written to
  \<^verbatim>\<open>gabtv_{key}.{extension}\<close> in the thumbnail directory, and the eviction step follows.
\<close>

theorem extension_inference_total:
  assumes "cached (last (split CHR ''/'' url)) w = None" and "net url = Some r"
  shows "extension_of (r\<lparr>content_type := None\<rparr>) = ''apng'' \<and>
         extension_of (r\<lparr>content_type := Some h\<rparr>) = last (split CHR ''/'' h) \<and>
         (CHR ''/'' \<notin> set h \<longrightarrow> extension_of (r\<lparr>content_type := Some h\<rparr>) = h) \<and>
         CHR ''/'' \<notin> set (extension_of r) \<and>
         \<lparr>fname = ''gabtv_'' @ last (split CHR ''/'' url) @ ''.'' @ extension_of r,
          mtime = clock w, data = body r\<rparr>
           \<in> set (files (write_file (''gabtv_'' @ last (split CHR ''/'' url) @ ''.'' @ extension_of r)
                           (body r) (w\<lparr>fetched := fetched w @ [url]\<rparr>))) \<and>
         download_fanart cfg net url w =
           enforce cfg (thumbnail cfg (''gabtv_'' @ last (split CHR ''/'' url) @ ''.'' @ extension_of r))
             (write_file (''gabtv_'' @ last (split CHR ''/'' url) @ ''.'' @ extension_of r)
                (body r) (w\<lparr>fetched := fetched w @ [url]\<rparr>))"
proof -
  let ?name = "''gabtv_'' @ last (split CHR ''/'' url) @ ''.'' @ extension_of r"
  let ?w0 = "w\<lparr>fetched := fetched w @ [url]\<rparr>"
  have absent: "extension_of (r\<lparr>content_type := None\<rparr>) = ''apng''"
    by (simp add: extension_of_def)
  have present: "extension_of (r\<lparr>content_type := Some h\<rparr>) = last (split CHR ''/'' h)"
    by (simp add: extension_of_def)
  have whole: "CHR ''/'' \<notin> set h \<longrightarrow> extension_of (r\<lparr>content_type := Some h\<rparr>) = h"
    by (simp add: extension_of_def split_no_sep_id)
  have inside: "CHR ''/'' \<notin> set (extension_of r)"
    by (rule ext_no_slash)
  have "\<lparr>fname = ?name, mtime = clock ?w0, data = body r\<rparr>
          \<in> set (files (write_file ?name (body r) ?w0))"
    by (rule written_entry)
  then have written: "\<lparr>fname = ?name, mtime = clock w, data = body r\<rparr>
          \<in> set (files (write_file ?name (body r) ?w0))"
    by simp
  have run: "download_fanart cfg net url w =
      enforce cfg (thumbnail cfg ?name) (write_file ?name (body r) ?w0)"
    using assms by (rule download_fanart_miss)
  show ?thesis
    using absent present whole inside written run by blast
qed

text \<open>
  C9: the amended statement at a PNG response and the header \<^verbatim>\<open>garbage\<close>.
\<close>

theorem extension_inference_total_witness:
  "cached (last (split CHR ''/'' ''https://tv.gab.com/img/c'')) two_files = None \<and>
   png_net ''https://tv.gab.com/img/c'' = Some \<lparr>content_type = Some ''image/png'', body = ''PNG''\<rparr> \<and>
   CHR ''/'' \<notin> set ''garbage'' \<and>
   extension_of \<lparr>content_type = Some ''garbage'', body = ''PNG''\<rparr> = ''garbage'' \<and>
   extension_of \<lparr>content_type = None, body = ''PNG''\<rparr> = ''apng'' \<and>
   download_fanart (cfg_of 3) png_net ''https://tv.gab.com/img/c'' two_files =
     enforce (cfg_of 3) (thumbnail (cfg_of 3) ''gabtv_c.png'')
       (write_file ''gabtv_c.png'' ''PNG''
          (two_files\<lparr>fetched := fetched two_files @ [''https://tv.gab.com/img/c'']\<rparr>))"
proof -
  have h1: "cached (last (split CHR ''/'' ''https://tv.gab.com/img/c'')) two_files = None"
    by (simp only: key_c cached_two_files)
  have h2: "png_net ''https://tv.gab.com/img/c'' =
      Some \<lparr>content_type = Some ''image/png'', body = ''PNG''\<rparr>"
    by (simp add: png_net_def)
  have h3: "CHR ''/'' \<notin> set ''garbage''" by simp
  show ?thesis
    using extension_inference_total [of "''https://tv.gab.com/img/c''" two_files png_net
        "\<lparr>content_type = Some ''image/png'', body = ''PNG''\<rparr>" "''garbage''" "cfg_of 3"]
      h1 h2 h3
    by (simp add: key_c png_ext)
qed

end
